theory Spec2Isabelle
  imports Main "HOL-Library.Sublist"
begin

section \<open>Python string operations used by misconfigmate.py\<close>

text \<open>
  Python strings are modelled as \<^typ>\<open>string\<close>. The functions below give the meaning of
  the built-in operations the scanner applies to them: \<^verbatim>\<open>needle in haystack\<close>,
  \<^verbatim>\<open>s.replace(old, new)\<close>, \<^verbatim>\<open>s.startswith(p)\<close> (which is \<^const>\<open>prefix\<close>),
  \<^verbatim>\<open>s.lstrip('/')\<close> and \<^verbatim>\<open>s.rstrip('/')\<close>.
\<close>

fun str_contains :: "string \<Rightarrow> string \<Rightarrow> bool" where
  "str_contains needle [] = (needle = [])"
| "str_contains needle (c # cs) = (prefix needle (c # cs) \<or> str_contains needle cs)"

text \<open>
  \<^verbatim>\<open>s.replace(old, new)\<close>: every non-overlapping occurrence of \<open>old\<close>, found from the
  left, is replaced. For an empty \<open>old\<close> Python inserts \<open>new\<close> before every character and at
  the end.
\<close>

fun str_replace :: "string \<Rightarrow> string \<Rightarrow> string \<Rightarrow> string" where
  "str_replace old new [] = (if old = [] then new else [])"
| "str_replace old new (c # cs) =
     (if old = [] then new @ c # str_replace old new cs
      else if prefix old (c # cs) then new @ str_replace old new (drop (length old) (c # cs))
      else c # str_replace old new cs)"

definition lstrip_slash :: "string \<Rightarrow> string" where
  "lstrip_slash s = dropWhile (\<lambda>c. c = CHR ''/'') s"

definition rstrip_slash :: "string \<Rightarrow> string" where
  "rstrip_slash s = rev (dropWhile (\<lambda>c. c = CHR ''/'') (rev s))"

definition TARGET :: string where
  "TARGET = ''{TARGET}''"

section \<open>Data model\<close>

text \<open>
  A service template is the JSON object loaded from \<^verbatim>\<open>templates/services.json\<close>; the three
  nested objects \<^verbatim>\<open>request\<close>, \<^verbatim>\<open>response\<close> and \<^verbatim>\<open>metadata\<close> are records, the
  keys read with \<^verbatim>\<open>.get(key, default)\<close> are optional fields, and \<^verbatim>\<open>statusCode\<close> is either one
  code or a list of codes (the \<^verbatim>\<open>isinstance(..., list)\<close> test of the source).
\<close>

datatype status_spec = Code int | Codes "int list"

record request_spec =
  rq_method :: string
  rq_baseURL :: string
  rq_path :: "string list"
  rq_headers :: "(string \<rightharpoonup> string) option"

record response_spec =
  rs_detectionFingerprints :: "string list"
  rs_statusCode :: status_spec
  rs_fingerprints :: "string list"

record metadata_spec =
  md_serviceName :: string
  md_description :: string
  md_reproductionSteps :: "string list option"
  md_references :: "string list option"

record service =
  request :: request_spec
  response :: response_spec
  metadata :: metadata_spec

text \<open>The fields of \<^verbatim>\<open>MisconfigMapper\<close> that the modelled methods read or write.\<close>

record mapper =
  target :: string
  headers :: "string \<rightharpoonup> string"
  skip_checks :: bool
  verbose :: bool
  timeout :: int
  output_format :: string
  webhook_url :: "string option"
  services :: "service list"
  discovered :: nat
  errors :: nat

text \<open>The call \<^verbatim>\<open>requests.request(...)\<close>: its arguments, and what it gives back.\<close>

record http_request =
  hq_method :: string
  hq_url :: string
  hq_headers :: "string \<rightharpoonup> string"
  hq_verify :: bool
  hq_timeout :: int
  hq_allow_redirects :: bool

record http_response =
  status_code :: int
  body_text :: string

datatype transport_error = Timeout | ConnectionError | SSLError | MalformedResponse

type_synonym network = "http_request \<Rightarrow> transport_error + http_response"

record probe_result =
  pr_timestamp :: string
  pr_target :: string
  pr_url :: string
  pr_exists :: bool
  pr_vulnerable :: bool
  pr_service :: string
  pr_description :: string
  pr_reproduction_steps :: "string list"
  pr_references :: "string list"
  pr_status_code :: int

section \<open>The probe: \<^verbatim>\<open>_check_endpoint\<close>\<close>

text \<open>
  The request that \<^verbatim>\<open>_check_endpoint\<close> hands to \<^verbatim>\<open>requests.request\<close>: the placeholder is
  replaced by \<^verbatim>\<open>self.target\<close>, and the headers are the dictionary
  \<^verbatim>\<open>{**self.headers, **service.get('request', {}).get('headers', {})}\<close>.
\<close>

definition actual_url :: "mapper \<Rightarrow> string \<Rightarrow> string" where
  "actual_url m url = str_replace TARGET (target m) url"

definition merged_headers :: "mapper \<Rightarrow> service \<Rightarrow> (string \<rightharpoonup> string)" where
  "merged_headers m svc =
     headers m ++ (case rq_headers (request svc) of None \<Rightarrow> Map.empty | Some h \<Rightarrow> h)"

definition probe_request :: "mapper \<Rightarrow> string \<Rightarrow> service \<Rightarrow> http_request" where
  "probe_request m url svc =
     \<lparr> hq_method = rq_method (request svc),
       hq_url = actual_url m url,
       hq_headers = merged_headers m svc,
       hq_verify = False,
       hq_timeout = timeout m,
       hq_allow_redirects = True \<rparr>"

definition status_match :: "status_spec \<Rightarrow> int \<Rightarrow> bool" where
  "status_match spec code =
     (case spec of Codes cs \<Rightarrow> code \<in> set cs | Code c \<Rightarrow> code = c)"

text \<open>
  \<^verbatim>\<open>_check_endpoint(url, service)\<close>. The network is a parameter: it answers the request with
  a response or with the exception the transport raised. \<open>now\<close> is the value of
  \<^verbatim>\<open>datetime.now().isoformat()\<close>. The result is the request that was issued, the returned
  dictionary (\<open>None\<close> for Python's \<^verbatim>\<open>None\<close>) and the scanner with its counters updated.
  The \<^verbatim>\<open>except Exception\<close> handler is the \<open>Inl\<close> branch.
\<close>

definition check_endpoint ::
  "mapper \<Rightarrow> network \<Rightarrow> string \<Rightarrow> string \<Rightarrow> service
     \<Rightarrow> http_request \<times> probe_result option \<times> mapper" where
  "check_endpoint m net now url svc =
     (let req = probe_request m url svc in
      case net req of
        Inl e \<Rightarrow> (req, None, m\<lparr>errors := errors m + 1\<rparr>)
      | Inr resp \<Rightarrow>
          (let exists = list_ex (\<lambda>fp. str_contains fp (body_text resp))
                          (rs_detectionFingerprints (response svc));
               vulnerable =
                 (if \<not> skip_checks m \<and> exists
                  then status_match (rs_statusCode (response svc)) (status_code resp) \<and>
                       list_ex (\<lambda>fp. str_contains fp (body_text resp))
                         (rs_fingerprints (response svc))
                  else False)
           in if exists \<or> vulnerable
              then (req,
                    Some \<lparr> pr_timestamp = now,
                           pr_target = target m,
                           pr_url = hq_url req,
                           pr_exists = exists,
                           pr_vulnerable = vulnerable,
                           pr_service = md_serviceName (metadata svc),
                           pr_description = md_description (metadata svc),
                           pr_reproduction_steps =
                             (case md_reproductionSteps (metadata svc) of
                                None \<Rightarrow> [] | Some xs \<Rightarrow> xs),
                           pr_references =
                             (case md_references (metadata svc) of
                                None \<Rightarrow> [] | Some xs \<Rightarrow> xs),
                           pr_status_code = status_code resp \<rparr>,
                    m\<lparr>discovered := discovered m + 1\<rparr>)
              else (req, None, m)))"

section \<open>Permutations and URL expansion\<close>

definition SUFFIXES :: "string list" where
  "SUFFIXES =
     [''dev'', ''staging'', ''stage'', ''test'', ''prod'', ''qa'',
      ''internal'', ''corp'', ''team'',
      ''app'', ''api'', ''admin'',
      ''us'', ''eu'', ''asia'']"

definition PREFIXES :: "string list" where
  "PREFIXES = [''dev'', ''staging'', ''test'', ''qa'', ''admin'', ''internal'']"

text \<open>
  The Python \<^verbatim>\<open>set\<close> that \<^verbatim>\<open>generate_permutations\<close> fills is kept as a list without
  repetitions; \<open>set_add\<close> is \<^verbatim>\<open>permutations.add(x)\<close>. \<^verbatim>\<open>list(permutations)\<close> returns the
  elements of the set once each, in an order Python does not specify; the model lists them in
  the order of first insertion, and the statements below speak only of membership,
  repetitions and length.
\<close>

definition set_add :: "'a \<Rightarrow> 'a list \<Rightarrow> 'a list" where
  "set_add x xs = (if x \<in> set xs then xs else xs @ [x])"

definition generate_permutations :: "string \<Rightarrow> string list" where
  "generate_permutations base_name =
     (let permutations = [];
          permutations = set_add base_name permutations;
          permutations =
            fold (\<lambda>suffix ps.
                    set_add (base_name @ ''.'' @ suffix) (set_add (base_name @ ''-'' @ suffix) ps))
              SUFFIXES permutations;
          permutations =
            fold (\<lambda>prefix ps.
                    set_add (prefix @ ''.'' @ base_name) (set_add (prefix @ base_name) ps))
              PREFIXES permutations
      in permutations)"

text \<open>
  The strings handed to \<^verbatim>\<open>permutations.add\<close>, in the order of the calls. A collision is a
  call whose string an earlier call has already added.
\<close>

definition candidates :: "string \<Rightarrow> string list" where
  "candidates base_name =
     base_name #
     concat (map (\<lambda>suffix. [base_name @ ''-'' @ suffix, base_name @ ''.'' @ suffix]) SUFFIXES) @
     concat (map (\<lambda>prefix. [prefix @ base_name, prefix @ ''.'' @ base_name]) PREFIXES)"

fun collisions :: "'a list \<Rightarrow> 'a list \<Rightarrow> nat" where
  "collisions seen [] = 0"
| "collisions seen (x # xs) =
     (if x \<in> set seen then Suc (collisions seen xs) else collisions (seen @ [x]) xs)"

text \<open>
  The body of the innermost loop of \<^verbatim>\<open>generate_urls\<close>: substitution into the base URL, the
  default scheme, the join with the path.
\<close>

definition ensure_scheme :: "string \<Rightarrow> string" where
  "ensure_scheme url =
     (if \<not> (prefix ''http://'' url \<or> prefix ''https://'' url) then ''https://'' @ url else url)"

definition expand_url :: "string \<Rightarrow> string \<Rightarrow> string \<Rightarrow> string" where
  "expand_url baseURL domain path =
     (let url = str_replace TARGET domain baseURL;
          url = ensure_scheme url
      in rstrip_slash url @ ''/'' @ lstrip_slash path)"

definition generate_urls :: "mapper \<Rightarrow> (string \<times> service) list" where
  "generate_urls m =
     (let permutations = generate_permutations (target m) in
      concat (map (\<lambda>svc.
        concat (map (\<lambda>domain.
          map (\<lambda>path. (expand_url (rq_baseURL (request svc)) domain path, svc))
            (rq_path (request svc)))
          permutations))
        (services m)))"

section \<open>Output: \<^verbatim>\<open>_display_table\<close>, \<^verbatim>\<open>_format_output\<close> and the dispatch in \<^verbatim>\<open>scan\<close>\<close>

text \<open>The loop of \<^verbatim>\<open>_display_table\<close> that fills \<^verbatim>\<open>seen\<close> and \<^verbatim>\<open>unique_results\<close>.\<close>

definition result_key :: "probe_result \<Rightarrow> string \<times> string" where
  "result_key r = (pr_service r, pr_url r)"

fun dedup_loop ::
  "(string \<times> string) set \<Rightarrow> probe_result list \<Rightarrow> probe_result list \<Rightarrow> probe_result list" where
  "dedup_loop seen unique_results [] = unique_results"
| "dedup_loop seen unique_results (r # rs) =
     (let key = result_key r in
      if key \<notin> seen then dedup_loop (insert key seen) (unique_results @ [r]) rs
      else dedup_loop seen unique_results rs)"

fun str_join :: "string \<Rightarrow> string list \<Rightarrow> string" where
  "str_join sep [] = []"
| "str_join sep [x] = x"
| "str_join sep (x # y # ys) = x @ sep @ str_join sep (y # ys)"

definition table_row :: "probe_result \<Rightarrow> string \<times> string \<times> string \<times> string" where
  "table_row result =
     (let status = (if pr_exists result then [''[cyan]EXISTS[/]''] else []) @
                   (if pr_vulnerable result then [''[red]VULNERABLE[/]''] else [])
      in (pr_service result, pr_url result, str_join '' & '' status, pr_description result))"

text \<open>
  What \<^verbatim>\<open>_display_table\<close> prints: the rows of the table, the number after
  \<^verbatim>\<open>Found ... unique results\<close>, the number after \<^verbatim>\<open>Total discovered endpoints\<close>, and the error
  line when there were errors.
\<close>

record table_view =
  tv_rows :: "(string \<times> string \<times> string \<times> string) list"
  tv_unique :: nat
  tv_discovered :: nat
  tv_errors :: "nat option"

definition display_table :: "mapper \<Rightarrow> probe_result list \<Rightarrow> table_view" where
  "display_table m results =
     (let unique_results = dedup_loop {} [] results in
      \<lparr> tv_rows = map table_row unique_results,
        tv_unique = length unique_results,
        tv_discovered = discovered m,
        tv_errors = (if errors m > 0 then Some (errors m) else None) \<rparr>)"

text \<open>
  \<^verbatim>\<open>_format_output\<close>. The serialisers (\<^verbatim>\<open>json.dumps\<close>, \<^verbatim>\<open>csv.DictWriter\<close>) are library code;
  the model keeps the records each of them is given. \<open>post\<close> is \<^verbatim>\<open>requests.post\<close>: \<open>None\<close>
  when it returns, the message of the exception when it raises.
\<close>

record webhook_payload =
  wp_timestamp :: string
  wp_target :: string
  wp_findings :: "probe_result list"

datatype formatted =
    JsonText "probe_result list"
  | JsonLines "probe_result list"
  | CsvText "string list" "probe_result list"
  | WebhookReport webhook_payload string

definition result_keys :: "string list" where
  "result_keys =
     [''timestamp'', ''target'', ''url'', ''exists'', ''vulnerable'', ''service'',
      ''description'', ''reproduction_steps'', ''references'', ''status_code'']"

definition format_output ::
  "mapper \<Rightarrow> (string option \<Rightarrow> webhook_payload \<Rightarrow> string option) \<Rightarrow> string
     \<Rightarrow> probe_result list \<Rightarrow> formatted option" where
  "format_output m post now results =
     (if results = [] then None
      else if output_format m = ''json'' then Some (JsonText results)
      else if output_format m = ''jsonl'' then Some (JsonLines results)
      else if output_format m = ''csv'' then Some (CsvText result_keys results)
      else if output_format m = ''webhook'' then
        (let webhook_data =
               \<lparr> wp_timestamp = now, wp_target = target m, wp_findings = results \<rparr>
         in case post (webhook_url m) webhook_data of
              None \<Rightarrow> Some (WebhookReport webhook_data ''Results sent to webhook successfully'')
            | Some e \<Rightarrow> Some (WebhookReport webhook_data (''Error sending to webhook: '' @ e)))
      else None)"

text \<open>The records a formatted output carries.\<close>

fun emitted :: "formatted \<Rightarrow> probe_result list" where
  "emitted (JsonText rs) = rs"
| "emitted (JsonLines rs) = rs"
| "emitted (CsvText hdr rs) = rs"
| "emitted (WebhookReport payload msg) = wp_findings payload"

text \<open>The end of \<^verbatim>\<open>scan\<close>: which of the two the collected results go to.\<close>

datatype report = Printed "formatted option" | Table table_view

definition scan_report ::
  "mapper \<Rightarrow> (string option \<Rightarrow> webhook_payload \<Rightarrow> string option) \<Rightarrow> string
     \<Rightarrow> probe_result list \<Rightarrow> report" where
  "scan_report m post now results =
     (if output_format m \<noteq> [] \<and> output_format m \<noteq> ''table''
      then Printed (format_output m post now results)
      else Table (display_table m results))"

section \<open>The entry point: \<^verbatim>\<open>main\<close>\<close>

text \<open>
  The parsed command line, and the outcome of the \<^verbatim>\<open>try\<close> block of \<^verbatim>\<open>main\<close>
  (\<^verbatim>\<open>MisconfigMapper(args)\<close> followed by \<^verbatim>\<open>scanner.scan()\<close>), which is a parameter of the
  model: it completes, leaves through \<^verbatim>\<open>sys.exit(n)\<close>, is interrupted, or raises
  an exception with a message and a traceback. \<open>console\<close> holds what \<^verbatim>\<open>main\<close> itself prints.
  The exit status of the process is 0 when \<^verbatim>\<open>main\<close> returns, and the argument of
  \<^verbatim>\<open>sys.exit\<close> otherwise.
\<close>

record args =
  a_target :: string
  a_service :: string
  a_skip_checks :: bool
  a_headers :: "string option"
  a_delay :: int
  a_timeout :: int
  a_verbose :: bool
  a_output :: string
  a_webhook :: "string option"
  a_threads :: int

datatype body_outcome = Completed | SysExit int | KeyboardInterrupt | Raised string string

record run =
  console :: "string list"
  exit_status :: int
  scanner_started :: bool

definition truthy :: "string option \<Rightarrow> bool" where
  "truthy v = (case v of None \<Rightarrow> False | Some s \<Rightarrow> s \<noteq> [])"

definition main :: "args \<Rightarrow> (args \<Rightarrow> body_outcome) \<Rightarrow> run" where
  "main args body =
     (if a_output args = ''webhook'' \<and> \<not> truthy (a_webhook args)
      then \<lparr> console = [''[red]Error: Webhook URL required when using webhook output format[/]''],
             exit_status = 0, scanner_started = False \<rparr>
      else
        (case body args of
           Completed \<Rightarrow> \<lparr> console = [], exit_status = 0, scanner_started = True \<rparr>
         | SysExit n \<Rightarrow> \<lparr> console = [], exit_status = n, scanner_started = True \<rparr>
         | KeyboardInterrupt \<Rightarrow>
             \<lparr> console = [CHR 0x0A # ''[yellow]Scan interrupted by user[/]''],
               exit_status = 1, scanner_started = True \<rparr>
         | Raised e traceback \<Rightarrow>
             \<lparr> console = [CHR 0x0A # ''[red]Error: '' @ e @ ''[/]''] @
                         (if a_verbose args then [traceback] else []),
               exit_status = 1, scanner_started = True \<rparr>))"

section \<open>Example inputs\<close>

definition ex_service :: service where
  "ex_service =
     \<lparr> request = \<lparr> rq_method = ''GET'', rq_baseURL = ''https://{TARGET}.example.com'',
                   rq_path = [''/login''],
                   rq_headers = Some [''Accept'' \<mapsto> ''text/html'', ''X-Probe'' \<mapsto> ''template''] \<rparr>,
       response = \<lparr> rs_detectionFingerprints = [''Welcome to Acme Tool''],
                    rs_statusCode = Codes [200, 302],
                    rs_fingerprints = [''Sign up''] \<rparr>,
       metadata = \<lparr> md_serviceName = ''Acme Tool'', md_description = ''Open sign-up'',
                    md_reproductionSteps = None, md_references = None \<rparr> \<rparr>"

definition ex_mapper :: mapper where
  "ex_mapper =
     \<lparr> target = ''acme'',
       headers = [''User-Agent'' \<mapsto> ''probe'', ''X-Probe'' \<mapsto> ''global''],
       skip_checks = False, verbose = False, timeout = 10, output_format = ''table'',
       webhook_url = None, services = [ex_service], discovered = 0, errors = 0 \<rparr>"

definition ex_net :: network where
  "ex_net = (\<lambda>req. Inr \<lparr> status_code = 200, body_text = ''Welcome to Acme Tool. Sign up'' \<rparr>)"

definition ex_result :: "string \<Rightarrow> string \<Rightarrow> string \<Rightarrow> probe_result" where
  "ex_result svc url stamp =
     \<lparr> pr_timestamp = stamp, pr_target = ''acme'', pr_url = url, pr_exists = True,
       pr_vulnerable = False, pr_service = svc, pr_description = ''found'',
       pr_reproduction_steps = [], pr_references = [], pr_status_code = 200 \<rparr>"

definition bare_service :: service where
  "bare_service =
     \<lparr> request = \<lparr> rq_method = ''GET'', rq_baseURL = ''{TARGET}'', rq_path = [''/login''],
                   rq_headers = None \<rparr>,
       response = \<lparr> rs_detectionFingerprints = [''Dashboard''],
                    rs_statusCode = Code 200,
                    rs_fingerprints = [''Sign up''] \<rparr>,
       metadata = \<lparr> md_serviceName = ''Self-hosted'', md_description = ''Open sign-up'',
                    md_reproductionSteps = None, md_references = None \<rparr> \<rparr>"

definition url_mapper :: mapper where
  "url_mapper =
     \<lparr> target = ''http://acme'', headers = Map.empty,
       skip_checks = False, verbose = False, timeout = 10, output_format = ''table'',
       webhook_url = None, services = [bare_service], discovered = 0, errors = 0 \<rparr>"

definition ex_results :: "probe_result list" where
  "ex_results =
     [ex_result ''svcA'' ''url1'' ''10:00:01'',
      ex_result ''svcA'' ''url1'' ''10:00:02'',
      ex_result ''svcB'' ''url1'' ''10:00:03'']"

section \<open>Substring test\<close>

lemma str_contains_iff:
  "str_contains needle hay \<longleftrightarrow> (\<exists>p s. hay = p @ needle @ s)"
proof (induction hay)
  case Nil
  then show ?case by auto
next
  case (Cons c cs)
  show ?case
  proof
    assume "str_contains needle (c # cs)"
    then consider "prefix needle (c # cs)" | "str_contains needle cs" by auto
    then show "\<exists>p s. c # cs = p @ needle @ s"
    proof cases
      case 1
      then obtain s where "c # cs = needle @ s" by (auto simp: prefix_def)
      then have "c # cs = [] @ needle @ s" by simp
      then show ?thesis by blast
    next
      case 2
      with Cons.IH obtain p s where "cs = p @ needle @ s" by blast
      then have "c # cs = (c # p) @ needle @ s" by simp
      then show ?thesis by blast
    qed
  next
    assume "\<exists>p s. c # cs = p @ needle @ s"
    then obtain p s where ps: "c # cs = p @ needle @ s" by blast
    show "str_contains needle (c # cs)"
    proof (cases p)
      case Nil
      with ps have "prefix needle (c # cs)" by (simp add: prefix_def)
      then show ?thesis by simp
    next
      case (Cons a p')
      with ps have "cs = p' @ needle @ s" by simp
      with Cons.IH have "str_contains needle cs" by blast
      then show ?thesis by simp
    qed
  qed
qed

section \<open>The probe\<close>

lemma str_contains_sublist: "str_contains needle hay = sublist needle hay"
  by (simp add: str_contains_iff sublist_def)

lemma list_ex_contains:
  "list_ex (\<lambda>fp. str_contains fp body) fps = (\<exists>fp\<in>set fps. sublist fp body)"
  by (simp add: list_ex_iff str_contains_sublist)

lemma check_endpoint_Inl:
  "net (probe_request m url svc) = Inl e \<Longrightarrow>
   check_endpoint m net now url svc = (probe_request m url svc, None, m\<lparr>errors := errors m + 1\<rparr>)"
  by (simp add: check_endpoint_def)

lemma check_endpoint_Inr_result:
  assumes "net (probe_request m url svc) = Inr resp"
  shows "fst (snd (check_endpoint m net now url svc)) =
     (let E = (\<exists>fp\<in>set (rs_detectionFingerprints (response svc)). sublist fp (body_text resp));
          V = (\<not> skip_checks m \<and> E \<and>
               status_match (rs_statusCode (response svc)) (status_code resp) \<and>
               (\<exists>fp\<in>set (rs_fingerprints (response svc)). sublist fp (body_text resp)))
      in if E \<or> V
         then Some \<lparr> pr_timestamp = now,
                     pr_target = target m,
                     pr_url = actual_url m url,
                     pr_exists = E,
                     pr_vulnerable = V,
                     pr_service = md_serviceName (metadata svc),
                     pr_description = md_description (metadata svc),
                     pr_reproduction_steps =
                       (case md_reproductionSteps (metadata svc) of None \<Rightarrow> [] | Some xs \<Rightarrow> xs),
                     pr_references =
                       (case md_references (metadata svc) of None \<Rightarrow> [] | Some xs \<Rightarrow> xs),
                     pr_status_code = status_code resp \<rparr>
         else None)"
  using assms
  by (auto simp: check_endpoint_def Let_def list_ex_contains probe_request_def)

text \<open>
  Claim C1. A probe reports \<open>vulnerable\<close> exactly when the response carries a detection
  fingerprint (so \<open>exists\<close> holds), skip-checks is off, the status code is the template's code
  or one of its codes, and the body contains a vulnerability fingerprint. With skip-checks on
  no result is vulnerable, and every result that is vulnerable also exists.
\<close>

theorem check_endpoint_vulnerable:
  "((\<exists>r. fst (snd (check_endpoint m net now url svc)) = Some r \<and> pr_vulnerable r) \<longleftrightarrow>
      (\<exists>resp. net (probe_request m url svc) = Inr resp \<and>
         (\<exists>fp\<in>set (rs_detectionFingerprints (response svc)). sublist fp (body_text resp)) \<and>
         \<not> skip_checks m \<and>
         (case rs_statusCode (response svc) of
            Code c \<Rightarrow> status_code resp = c
          | Codes cs \<Rightarrow> status_code resp \<in> set cs) \<and>
         (\<exists>fp\<in>set (rs_fingerprints (response svc)). sublist fp (body_text resp)))) \<and>
   (\<forall>r resp. fst (snd (check_endpoint m net now url svc)) = Some r \<and>
        net (probe_request m url svc) = Inr resp \<longrightarrow>
        (pr_vulnerable r \<longleftrightarrow>
           pr_exists r \<and> \<not> skip_checks m \<and>
           (case rs_statusCode (response svc) of
              Code c \<Rightarrow> status_code resp = c
            | Codes cs \<Rightarrow> status_code resp \<in> set cs) \<and>
           (\<exists>fp\<in>set (rs_fingerprints (response svc)). sublist fp (body_text resp)))) \<and>
   (skip_checks m \<longrightarrow>
      (\<forall>r. fst (snd (check_endpoint m net now url svc)) = Some r \<longrightarrow> \<not> pr_vulnerable r)) \<and>
   (\<forall>r. fst (snd (check_endpoint m net now url svc)) = Some r \<longrightarrow>
      pr_vulnerable r \<longrightarrow> pr_exists r)"
proof (cases "net (probe_request m url svc)")
  case (Inl e)
  then show ?thesis by (simp add: check_endpoint_Inl)
next
  case (Inr resp)
  note R = check_endpoint_Inr_result
    [where net = net and m = m and url = url and svc = svc and now = now, OF Inr]
  show ?thesis
    unfolding R using Inr
    by (auto simp: Let_def status_match_def split: status_spec.splits)
qed


theorem check_endpoint_vulnerable_witness:
  "(\<exists>r. fst (snd (check_endpoint ex_mapper ex_net ''2024-05-01T10:00:00''
            ''https://acme.example.com/login'' ex_service)) = Some r \<and>
        pr_vulnerable r \<and> pr_exists r) \<and>
   \<not> skip_checks ex_mapper \<and>
   skip_checks (ex_mapper\<lparr>skip_checks := True\<rparr>) \<and>
   \<not> (\<exists>r. fst (snd (check_endpoint (ex_mapper\<lparr>skip_checks := True\<rparr>) ex_net
            ''2024-05-01T10:00:00'' ''https://acme.example.com/login'' ex_service)) = Some r \<and>
        pr_vulnerable r)"
proof -
  note T = check_endpoint_vulnerable
    [of ex_mapper ex_net "''2024-05-01T10:00:00''" "''https://acme.example.com/login''" ex_service]
  note S = check_endpoint_vulnerable
    [of "ex_mapper\<lparr>skip_checks := True\<rparr>" ex_net "''2024-05-01T10:00:00''"
        "''https://acme.example.com/login''" ex_service]
  have rhs: "\<exists>resp. ex_net (probe_request ex_mapper ''https://acme.example.com/login'' ex_service)
                 = Inr resp \<and>
         (\<exists>fp\<in>set (rs_detectionFingerprints (response ex_service)). sublist fp (body_text resp)) \<and>
         \<not> skip_checks ex_mapper \<and>
         (case rs_statusCode (response ex_service) of
            Code c \<Rightarrow> status_code resp = c
          | Codes cs \<Rightarrow> status_code resp \<in> set cs) \<and>
         (\<exists>fp\<in>set (rs_fingerprints (response ex_service)). sublist fp (body_text resp))"
    by (simp add: ex_net_def ex_service_def ex_mapper_def str_contains_sublist [symmetric])
  with T obtain r where r: "fst (snd (check_endpoint ex_mapper ex_net ''2024-05-01T10:00:00''
            ''https://acme.example.com/login'' ex_service)) = Some r" "pr_vulnerable r"
    by blast
  with T have "pr_exists r" by blast
  with r have A: "\<exists>r. fst (snd (check_endpoint ex_mapper ex_net ''2024-05-01T10:00:00''
            ''https://acme.example.com/login'' ex_service)) = Some r \<and>
        pr_vulnerable r \<and> pr_exists r" by blast
  have sk: "skip_checks (ex_mapper\<lparr>skip_checks := True\<rparr>)" by simp
  with S have B: "\<not> (\<exists>r. fst (snd (check_endpoint (ex_mapper\<lparr>skip_checks := True\<rparr>) ex_net
            ''2024-05-01T10:00:00'' ''https://acme.example.com/login'' ex_service)) = Some r \<and>
        pr_vulnerable r)" by blast
  have "\<not> skip_checks ex_mapper" by (simp add: ex_mapper_def)
  with A B sk show ?thesis by blast
qed

text \<open>
  Claim C2. A probe reports \<open>exists\<close> exactly when one of the template's detection
  fingerprints occurs in the response body as it stands, character for character.
\<close>

theorem check_endpoint_exists:
  "((\<exists>r. fst (snd (check_endpoint m net now url svc)) = Some r \<and> pr_exists r) \<longleftrightarrow>
      (\<exists>resp. net (probe_request m url svc) = Inr resp \<and>
         (\<exists>fp\<in>set (rs_detectionFingerprints (response svc)).
            \<exists>before after. body_text resp = before @ fp @ after))) \<and>
   (\<forall>r resp. fst (snd (check_endpoint m net now url svc)) = Some r \<and>
        net (probe_request m url svc) = Inr resp \<longrightarrow>
        (pr_exists r \<longleftrightarrow>
           (\<exists>fp\<in>set (rs_detectionFingerprints (response svc)).
              \<exists>before after. body_text resp = before @ fp @ after)))"
proof (cases "net (probe_request m url svc)")
  case (Inl e)
  then show ?thesis by (simp add: check_endpoint_Inl)
next
  case (Inr resp)
  note R = check_endpoint_Inr_result
    [where net = net and m = m and url = url and svc = svc and now = now, OF Inr]
  show ?thesis
    unfolding R using Inr
    by (auto simp: Let_def sublist_def)
qed

theorem check_endpoint_exists_witness:
  "(\<exists>r. fst (snd (check_endpoint ex_mapper ex_net ''2024-05-01T10:00:00''
            ''https://acme.example.com/login'' ex_service)) = Some r \<and> pr_exists r) \<and>
   fst (snd (check_endpoint ex_mapper
      (\<lambda>req. Inr \<lparr> status_code = 200, body_text = ''welcome to acme tool. Sign up'' \<rparr>)
      ''2024-05-01T10:00:00'' ''https://acme.example.com/login'' ex_service)) = None"
proof -
  note T = check_endpoint_exists
    [of ex_mapper ex_net "''2024-05-01T10:00:00''" "''https://acme.example.com/login''" ex_service]
  have "ex_net (probe_request ex_mapper ''https://acme.example.com/login'' ex_service)
          = Inr \<lparr> status_code = 200, body_text = ''Welcome to Acme Tool. Sign up'' \<rparr>"
    by (simp add: ex_net_def)
  moreover have "''Welcome to Acme Tool. Sign up'' = [] @ ''Welcome to Acme Tool'' @ ''. Sign up''"
    by simp
  ultimately have "\<exists>resp. ex_net (probe_request ex_mapper ''https://acme.example.com/login'' ex_service)
          = Inr resp \<and>
         (\<exists>fp\<in>set (rs_detectionFingerprints (response ex_service)).
            \<exists>before after. body_text resp = before @ fp @ after)"
    unfolding ex_service_def by (simp del: append.simps) blast
  with T have A: "\<exists>r. fst (snd (check_endpoint ex_mapper ex_net ''2024-05-01T10:00:00''
            ''https://acme.example.com/login'' ex_service)) = Some r \<and> pr_exists r"
    by blast
  have B: "fst (snd (check_endpoint ex_mapper
      (\<lambda>req. Inr \<lparr> status_code = 200, body_text = ''welcome to acme tool. Sign up'' \<rparr>)
      ''2024-05-01T10:00:00'' ''https://acme.example.com/login'' ex_service)) = None"
    by (simp add: check_endpoint_def ex_service_def ex_mapper_def)
  from A B show ?thesis by blast
qed


lemma check_endpoint_Inr_state:
  assumes "net (probe_request m url svc) = Inr resp"
  shows "snd (snd (check_endpoint m net now url svc)) =
     (if fst (snd (check_endpoint m net now url svc)) = None then m
      else m\<lparr>discovered := discovered m + 1\<rparr>)"
  using assms by (simp add: check_endpoint_def Let_def)

text \<open>
  Claim C3. The probe has a value for every answer of the network. When the transport fails,
  whatever the failure, the probe returns nothing and the error counter goes up by one. When
  a response arrives, a result is returned exactly when \<open>exists\<close> or \<open>vulnerable\<close> holds;
  otherwise the probe returns nothing, the scanner is unchanged, and in both cases the error
  counter stays as it was.
\<close>

theorem check_endpoint_never_raises:
  "(\<forall>e. net (probe_request m url svc) = Inl e \<longrightarrow>
      check_endpoint m net now url svc =
        (probe_request m url svc, None, m\<lparr>errors := errors m + 1\<rparr>)) \<and>
   (\<forall>resp. net (probe_request m url svc) = Inr resp \<longrightarrow>
      ((\<exists>r. fst (snd (check_endpoint m net now url svc)) = Some r) \<longleftrightarrow>
         (\<exists>fp\<in>set (rs_detectionFingerprints (response svc)). sublist fp (body_text resp)) \<or>
         (\<not> skip_checks m \<and>
          (\<exists>fp\<in>set (rs_detectionFingerprints (response svc)). sublist fp (body_text resp)) \<and>
          (case rs_statusCode (response svc) of
             Code c \<Rightarrow> status_code resp = c
           | Codes cs \<Rightarrow> status_code resp \<in> set cs) \<and>
          (\<exists>fp\<in>set (rs_fingerprints (response svc)). sublist fp (body_text resp)))) \<and>
      (\<forall>r. fst (snd (check_endpoint m net now url svc)) = Some r \<longrightarrow>
         (pr_exists r \<or> pr_vulnerable r) \<and>
         pr_target r = target m \<and>
         pr_url r = hq_url (probe_request m url svc) \<and>
         pr_service r = md_serviceName (metadata svc) \<and>
         pr_description r = md_description (metadata svc) \<and>
         pr_status_code r = status_code resp \<and>
         snd (snd (check_endpoint m net now url svc)) = m\<lparr>discovered := discovered m + 1\<rparr>) \<and>
      (fst (snd (check_endpoint m net now url svc)) = None \<longrightarrow>
         snd (snd (check_endpoint m net now url svc)) = m) \<and>
      errors (snd (snd (check_endpoint m net now url svc))) = errors m)"
proof (cases "net (probe_request m url svc)")
  case (Inl e)
  then show ?thesis by (simp add: check_endpoint_Inl)
next
  case (Inr resp)
  note R = check_endpoint_Inr_result
    [where net = net and m = m and url = url and svc = svc and now = now, OF Inr]
  note St = check_endpoint_Inr_state
    [where net = net and m = m and url = url and svc = svc and now = now, OF Inr]
  show ?thesis
    unfolding St unfolding R using Inr
    by (auto simp: Let_def status_match_def probe_request_def split: status_spec.splits)
qed

theorem check_endpoint_never_raises_witness:
  "check_endpoint ex_mapper (\<lambda>req. Inl Timeout) ''2024-05-01T10:00:00''
      ''https://acme.example.com/login'' ex_service =
     (probe_request ex_mapper ''https://acme.example.com/login'' ex_service, None,
      ex_mapper\<lparr>errors := 1\<rparr>) \<and>
   (\<exists>r. fst (snd (check_endpoint ex_mapper ex_net ''2024-05-01T10:00:00''
            ''https://acme.example.com/login'' ex_service)) = Some r \<and>
        pr_url r = ''https://acme.example.com/login'' \<and> pr_status_code r = 200) \<and>
   errors (snd (snd (check_endpoint ex_mapper ex_net ''2024-05-01T10:00:00''
            ''https://acme.example.com/login'' ex_service))) = 0 \<and>
   check_endpoint ex_mapper (\<lambda>req. Inr \<lparr> status_code = 404, body_text = ''Not Found'' \<rparr>)
      ''2024-05-01T10:00:00'' ''https://acme.example.com/login'' ex_service =
     (probe_request ex_mapper ''https://acme.example.com/login'' ex_service, None, ex_mapper)"
proof -
  let ?u = "''https://acme.example.com/login''" and ?t = "''2024-05-01T10:00:00''"
  note F = check_endpoint_never_raises [of "\<lambda>req. Inl Timeout" ex_mapper ?u ex_service ?t]
  note T = check_endpoint_never_raises [of ex_net ex_mapper ?u ex_service ?t]
  have A: "check_endpoint ex_mapper (\<lambda>req. Inl Timeout) ?t ?u ex_service =
     (probe_request ex_mapper ?u ex_service, None, ex_mapper\<lparr>errors := 1\<rparr>)"
    using F by (simp add: ex_mapper_def)
  have net: "ex_net (probe_request ex_mapper ?u ex_service)
          = Inr \<lparr> status_code = 200, body_text = ''Welcome to Acme Tool. Sign up'' \<rparr>"
    by (simp add: ex_net_def)
  have fp: "\<exists>fp\<in>set (rs_detectionFingerprints (response ex_service)).
              sublist fp ''Welcome to Acme Tool. Sign up''"
    by (simp add: ex_service_def str_contains_sublist [symmetric])
  from T net fp obtain r
    where r: "fst (snd (check_endpoint ex_mapper ex_net ?t ?u ex_service)) = Some r"
    by auto
  with T net have "pr_url r = hq_url (probe_request ex_mapper ?u ex_service)"
    and "pr_status_code r = 200" by auto
  moreover have "hq_url (probe_request ex_mapper ?u ex_service) = ?u"
    by (simp add: probe_request_def actual_url_def TARGET_def ex_mapper_def)
  ultimately have B: "\<exists>r. fst (snd (check_endpoint ex_mapper ex_net ?t ?u ex_service)) = Some r \<and>
        pr_url r = ?u \<and> pr_status_code r = 200"
    using r by auto
  from T net have C: "errors (snd (snd (check_endpoint ex_mapper ex_net ?t ?u ex_service))) = 0"
    by (auto simp: ex_mapper_def)
  have D: "check_endpoint ex_mapper (\<lambda>req. Inr \<lparr> status_code = 404, body_text = ''Not Found'' \<rparr>)
      ?t ?u ex_service = (probe_request ex_mapper ?u ex_service, None, ex_mapper)"
    by (simp add: check_endpoint_def ex_service_def)
  from A B C D show ?thesis by blast
qed



section \<open>Permutations and URL expansion: properties\<close>



lemma prefix_str_replace:
  assumes "old \<noteq> []" and "hd old \<notin> set p" and "prefix p s"
  shows "prefix p (str_replace old new s)"
  using assms
proof (induction p arbitrary: s)
  case Nil
  then show ?case by simp
next
  case (Cons x xs)
  then obtain s' where s: "s = x # s'" and ps: "prefix xs s'"
    by (cases s) auto
  from Cons.prems have "\<not> prefix old (x # s')"
    by (cases old) auto
  moreover from Cons ps have "prefix xs (str_replace old new s')" by simp
  ultimately show ?case using s Cons.prems by simp
qed

lemma rstrip_slash_decomp:
  "\<exists>n. s = rstrip_slash s @ replicate n (CHR ''/'')"
proof -
  let ?P = "\<lambda>c. c = CHR ''/''"
  let ?t = "takeWhile ?P (rev s)"
  have "\<forall>x\<in>set ?t. x = CHR ''/''" by (auto dest: set_takeWhileD)
  then have t: "?t = replicate (length ?t) (CHR ''/'')"
    by (simp add: replicate_length_same)
  have "rev (dropWhile ?P (rev s)) @ rev ?t = rev (?t @ dropWhile ?P (rev s))"
    by (simp only: rev_append)
  also have "\<dots> = rev (rev s)" by (simp only: takeWhile_dropWhile_id)
  finally have "s = rstrip_slash s @ rev ?t" by (simp add: rstrip_slash_def)
  with t have "s = rstrip_slash s @ replicate (length ?t) (CHR ''/'')"
    by (metis rev_replicate)
  then show ?thesis ..
qed

lemma lstrip_slash_decomp:
  "\<exists>k. s = replicate k (CHR ''/'') @ lstrip_slash s"
proof -
  let ?P = "\<lambda>c. c = CHR ''/''"
  let ?t = "takeWhile ?P s"
  have "\<forall>x\<in>set ?t. x = CHR ''/''" by (auto dest: set_takeWhileD)
  then have t: "?t = replicate (length ?t) (CHR ''/'')"
    by (simp add: replicate_length_same)
  have "s = ?t @ lstrip_slash s" by (simp add: lstrip_slash_def)
  with t have "s = replicate (length ?t) (CHR ''/'') @ lstrip_slash s" by simp
  then show ?thesis ..
qed

lemma lstrip_slash_no_leading: "\<not> prefix ''/'' (lstrip_slash s)"
proof
  assume "prefix ''/'' (lstrip_slash s)"
  then obtain r where r: "dropWhile (\<lambda>c. c = CHR ''/'') s = CHR ''/'' # r"
    by (auto simp: prefix_def lstrip_slash_def)
  then have "dropWhile (\<lambda>c. c = CHR ''/'') s \<noteq> []" by simp
  then have "hd (dropWhile (\<lambda>c. c = CHR ''/'') s) \<noteq> CHR ''/''"
    by (rule hd_dropWhile)
  with r show False by simp
qed

lemma rstrip_slash_no_trailing: "\<not> suffix ''/'' (rstrip_slash s)"
proof
  assume "suffix ''/'' (rstrip_slash s)"
  then obtain r where "rev (dropWhile (\<lambda>c. c = CHR ''/'') (rev s)) = r @ ''/''"
    by (auto simp: suffix_def rstrip_slash_def)
  then have "rev (rev (dropWhile (\<lambda>c. c = CHR ''/'') (rev s))) = rev (r @ ''/'')"
    by (rule arg_cong)
  then have r: "dropWhile (\<lambda>c. c = CHR ''/'') (rev s) = CHR ''/'' # rev r" by simp
  then have "dropWhile (\<lambda>c. c = CHR ''/'') (rev s) \<noteq> []" by simp
  then have "hd (dropWhile (\<lambda>c. c = CHR ''/'') (rev s)) \<noteq> CHR ''/''"
    by (rule hd_dropWhile)
  with r show False by simp
qed

lemma scheme_survives_substitution:
  assumes "prefix ''http://'' baseURL \<or> prefix ''https://'' baseURL"
  shows "prefix ''http://'' (str_replace TARGET domain baseURL) \<or>
         prefix ''https://'' (str_replace TARGET domain baseURL)"
proof -
  have 1: "prefix ''http://'' (str_replace TARGET domain baseURL)"
    if "prefix ''http://'' baseURL"
    by (rule prefix_str_replace [OF _ _ that]) (simp_all add: TARGET_def)
  have 2: "prefix ''https://'' (str_replace TARGET domain baseURL)"
    if "prefix ''https://'' baseURL"
    by (rule prefix_str_replace [OF _ _ that]) (simp_all add: TARGET_def)
  from assms 1 2 show ?thesis by blast
qed

lemma set_set_add: "set (set_add x xs) = insert x (set xs)"
  by (auto simp: set_add_def)

lemma set_fold_set_add:
  "set (fold (\<lambda>a ps. set_add (f a) (set_add (g a) ps)) as init) =
     set init \<union> f ` set as \<union> g ` set as"
  by (induction as arbitrary: init) (auto simp: set_set_add)

lemma set_generate_permutations:
  "set (generate_permutations base_name) =
     {base_name} \<union>
     (\<lambda>suffix. base_name @ ''-'' @ suffix) ` set SUFFIXES \<union>
     (\<lambda>suffix. base_name @ ''.'' @ suffix) ` set SUFFIXES \<union>
     (\<lambda>prefix. prefix @ base_name) ` set PREFIXES \<union>
     (\<lambda>prefix. prefix @ ''.'' @ base_name) ` set PREFIXES"
  unfolding generate_permutations_def Let_def set_fold_set_add set_set_add
  by auto

lemma base_in_generate_permutations: "base_name \<in> set (generate_permutations base_name)"
  by (simp add: set_generate_permutations)

lemma set_generate_urls:
  "set (generate_urls m) =
     {(expand_url (rq_baseURL (request svc)) domain path, svc) | svc domain path.
        svc \<in> set (services m) \<and> domain \<in> set (generate_permutations (target m)) \<and>
        path \<in> set (rq_path (request svc))}"
  by (auto simp: generate_urls_def Let_def)









text \<open>
  Claim C5, as stated, fails: the scheme test is made on the URL after substitution. The base
  URL \<^verbatim>\<open>{TARGET}\<close> carries no scheme, and for the target \<^verbatim>\<open>http://acme\<close> (its own first
  permutation) no \<^verbatim>\<open>https://\<close> is added.
\<close>

theorem expand_url_scheme_counterexample:
  "rq_baseURL (request bare_service) = ''{TARGET}'' \<and>
   \<not> prefix ''http://'' ''{TARGET}'' \<and> \<not> prefix ''https://'' ''{TARGET}'' \<and>
   target url_mapper = ''http://acme'' \<and>
   expand_url ''{TARGET}'' ''http://acme'' ''/login'' = ''http://acme/login'' \<and>
   (''http://acme/login'', bare_service) \<in> set (generate_urls url_mapper) \<and>
   \<not> prefix ''https://'' ''http://acme/login''"
proof -
  have e: "expand_url ''{TARGET}'' ''http://acme'' ''/login'' = ''http://acme/login''"
    by (simp add: expand_url_def Let_def ensure_scheme_def rstrip_slash_def lstrip_slash_def
        TARGET_def)
  have "''http://acme'' \<in> set (generate_permutations (target url_mapper))"
    using base_in_generate_permutations [of "''http://acme''"] by (simp add: url_mapper_def)
  moreover have "bare_service \<in> set (services url_mapper)" by (simp add: url_mapper_def)
  moreover have "''/login'' \<in> set (rq_path (request bare_service))"
    by (simp add: bare_service_def)
  ultimately have
    "(expand_url (rq_baseURL (request bare_service)) ''http://acme'' ''/login'', bare_service)
       \<in> set (generate_urls url_mapper)"
    unfolding set_generate_urls by blast
  moreover have b: "rq_baseURL (request bare_service) = ''{TARGET}''"
    by (simp add: bare_service_def)
  ultimately have "(''http://acme/login'', bare_service) \<in> set (generate_urls url_mapper)"
    using e by simp
  with e b show ?thesis by (simp add: url_mapper_def)
qed

text \<open>
  Claim C5, amended. Every generated task carries the expansion of its template's base URL
  for one permutation and one path. The expanded URL is the substituted base URL after scheme
  normalisation, without its trailing slashes, then one slash, then the path without its leading slashes.
  Scheme normalisation leaves a substituted URL that starts with \<^verbatim>\<open>http://\<close> or
  \<^verbatim>\<open>https://\<close> as it is (which is the case whenever the base URL itself starts with one of
  them), puts exactly one \<^verbatim>\<open>https://\<close> in front of any other, and is idempotent.
\<close>

theorem expand_url_normalised:
  "(\<forall>task\<in>set (generate_urls m).
      \<exists>domain\<in>set (generate_permutations (target m)).
        \<exists>path\<in>set (rq_path (request (snd task))).
          fst task = expand_url (rq_baseURL (request (snd task))) domain path) \<and>
   expand_url baseURL domain path =
     rstrip_slash (ensure_scheme (str_replace TARGET domain baseURL)) @ ''/'' @ lstrip_slash path \<and>
   (\<exists>n. ensure_scheme (str_replace TARGET domain baseURL) =
          rstrip_slash (ensure_scheme (str_replace TARGET domain baseURL)) @
          replicate n (CHR ''/'')) \<and>
   (\<exists>k. path = replicate k (CHR ''/'') @ lstrip_slash path) \<and>
   \<not> suffix ''/'' (rstrip_slash (ensure_scheme (str_replace TARGET domain baseURL))) \<and>
   \<not> prefix ''/'' (lstrip_slash path) \<and>
   (prefix ''http://'' baseURL \<or> prefix ''https://'' baseURL \<longrightarrow>
      ensure_scheme (str_replace TARGET domain baseURL) = str_replace TARGET domain baseURL) \<and>
   (prefix ''http://'' (str_replace TARGET domain baseURL) \<or>
    prefix ''https://'' (str_replace TARGET domain baseURL) \<longrightarrow>
      ensure_scheme (str_replace TARGET domain baseURL) = str_replace TARGET domain baseURL) \<and>
   (\<not> (prefix ''http://'' (str_replace TARGET domain baseURL) \<or>
        prefix ''https://'' (str_replace TARGET domain baseURL)) \<longrightarrow>
      ensure_scheme (str_replace TARGET domain baseURL) =
        ''https://'' @ str_replace TARGET domain baseURL) \<and>
   ensure_scheme (ensure_scheme (str_replace TARGET domain baseURL)) =
     ensure_scheme (str_replace TARGET domain baseURL)"
proof -
  let ?s = "str_replace TARGET domain baseURL"
  have Z: "\<forall>task\<in>set (generate_urls m).
      \<exists>domain\<in>set (generate_permutations (target m)).
        \<exists>path\<in>set (rq_path (request (snd task))).
          fst task = expand_url (rq_baseURL (request (snd task))) domain path"
    unfolding set_generate_urls by auto
  have A: "expand_url baseURL domain path =
     rstrip_slash (ensure_scheme ?s) @ ''/'' @ lstrip_slash path"
    by (simp add: expand_url_def Let_def)
  have B: "\<exists>n. ensure_scheme ?s = rstrip_slash (ensure_scheme ?s) @ replicate n (CHR ''/'')"
    by (rule rstrip_slash_decomp)
  have C: "\<exists>k. path = replicate k (CHR ''/'') @ lstrip_slash path"
    by (rule lstrip_slash_decomp)
  have D: "\<not> suffix ''/'' (rstrip_slash (ensure_scheme ?s))"
    by (rule rstrip_slash_no_trailing)
  have E: "\<not> prefix ''/'' (lstrip_slash path)"
    by (rule lstrip_slash_no_leading)
  have G: "prefix ''http://'' ?s \<or> prefix ''https://'' ?s \<longrightarrow> ensure_scheme ?s = ?s"
    by (simp add: ensure_scheme_def)
  have F: "prefix ''http://'' baseURL \<or> prefix ''https://'' baseURL \<longrightarrow> ensure_scheme ?s = ?s"
    using scheme_survives_substitution [of baseURL domain] G by blast
  have H: "\<not> (prefix ''http://'' ?s \<or> prefix ''https://'' ?s) \<longrightarrow>
      ensure_scheme ?s = ''https://'' @ ?s"
    by (simp add: ensure_scheme_def)
  have I: "ensure_scheme (ensure_scheme ?s) = ensure_scheme ?s"
    by (simp add: ensure_scheme_def)
  from Z A B C D E F G H I show ?thesis by blast
qed


theorem expand_url_normalised_witness:
  "(''https://acme.example.com/login'', ex_service) \<in> set (generate_urls ex_mapper) \<and>
   (\<exists>domain\<in>set (generate_permutations ''acme'').
      ''https://acme.example.com/login'' =
        expand_url ''https://{TARGET}.example.com'' domain ''/login'') \<and>
   prefix ''https://'' ''https://{TARGET}.example.com/'' \<and>
   ensure_scheme (str_replace TARGET ''acme'' ''https://{TARGET}.example.com/'') =
     ''https://acme.example.com/'' \<and>
   \<not> (prefix ''http://'' (str_replace TARGET ''acme'' ''{TARGET}.example.com/'') \<or>
       prefix ''https://'' (str_replace TARGET ''acme'' ''{TARGET}.example.com/'')) \<and>
   ensure_scheme (str_replace TARGET ''acme'' ''{TARGET}.example.com/'') =
     ''https://acme.example.com/'' \<and>
   expand_url ''{TARGET}.example.com/'' ''acme'' ''//login'' = ''https://acme.example.com/login''"
proof -
  note T1 = expand_url_normalised
    [where baseURL = "''https://{TARGET}.example.com/''" and domain = "''acme''"
       and path = "''//login''" and m = ex_mapper]
  note T2 = expand_url_normalised
    [where baseURL = "''{TARGET}.example.com/''" and domain = "''acme''"
       and path = "''//login''" and m = ex_mapper]
  have s1: "str_replace TARGET ''acme'' ''https://{TARGET}.example.com/'' =
            ''https://acme.example.com/''"
    by (simp add: TARGET_def)
  have s2: "str_replace TARGET ''acme'' ''{TARGET}.example.com/'' = ''acme.example.com/''"
    by (simp add: TARGET_def)
  have h1: "prefix ''https://'' ''https://{TARGET}.example.com/''" by simp
  with T1 have A: "ensure_scheme (str_replace TARGET ''acme'' ''https://{TARGET}.example.com/'') =
     ''https://acme.example.com/''"
    unfolding s1 by blast
  have h2: "\<not> (prefix ''http://'' (str_replace TARGET ''acme'' ''{TARGET}.example.com/'') \<or>
       prefix ''https://'' (str_replace TARGET ''acme'' ''{TARGET}.example.com/''))"
    unfolding s2 by simp
  with T2 have B: "ensure_scheme (str_replace TARGET ''acme'' ''{TARGET}.example.com/'') =
     ''https://acme.example.com/''"
    unfolding s2 by simp
  from T2 have "expand_url ''{TARGET}.example.com/'' ''acme'' ''//login'' =
     rstrip_slash (ensure_scheme (str_replace TARGET ''acme'' ''{TARGET}.example.com/'')) @
     ''/'' @ lstrip_slash ''//login''"
    by blast
  then have C: "expand_url ''{TARGET}.example.com/'' ''acme'' ''//login'' =
      ''https://acme.example.com/login''"
    unfolding B by (simp add: rstrip_slash_def lstrip_slash_def)
  have x: "expand_url ''https://{TARGET}.example.com'' ''acme'' ''/login'' =
      ''https://acme.example.com/login''"
    by (simp add: expand_url_def Let_def ensure_scheme_def rstrip_slash_def lstrip_slash_def
        TARGET_def)
  have "''acme'' \<in> set (generate_permutations (target ex_mapper))"
    using base_in_generate_permutations [of "''acme''"] by (simp add: ex_mapper_def)
  moreover have "ex_service \<in> set (services ex_mapper)" by (simp add: ex_mapper_def)
  moreover have "''/login'' \<in> set (rq_path (request ex_service))"
    by (simp add: ex_service_def)
  ultimately have
    "(expand_url (rq_baseURL (request ex_service)) ''acme'' ''/login'', ex_service)
       \<in> set (generate_urls ex_mapper)"
    unfolding set_generate_urls by blast
  then have Y: "(''https://acme.example.com/login'', ex_service) \<in> set (generate_urls ex_mapper)"
    using x by (simp add: ex_service_def)
  with T1 have "\<exists>domain\<in>set (generate_permutations (target ex_mapper)).
        \<exists>path\<in>set (rq_path (request ex_service)).
          ''https://acme.example.com/login'' =
            expand_url (rq_baseURL (request ex_service)) domain path"
    by fastforce
  then have Z: "\<exists>domain\<in>set (generate_permutations ''acme'').
      ''https://acme.example.com/login'' =
        expand_url ''https://{TARGET}.example.com'' domain ''/login''"
    by (simp add: ex_service_def ex_mapper_def)
  from Y Z h1 A h2 B C show ?thesis by blast
qed

lemma fold_set_add_pairs:
  "fold set_add (concat (map (\<lambda>a. [g a, f a]) as)) init =
     fold (\<lambda>a ps. set_add (f a) (set_add (g a) ps)) as init"
  by (induction as arbitrary: init) simp_all

lemma generate_permutations_fold:
  "generate_permutations base_name = fold set_add (candidates base_name) []"
  by (simp add: generate_permutations_def candidates_def Let_def fold_set_add_pairs)

lemma distinct_fold_set_add:
  "distinct init \<Longrightarrow> distinct (fold set_add xs init)"
  by (induction xs arbitrary: init) (auto simp: set_add_def)

lemma set_fold_set_add_list: "set (fold set_add xs init) = set init \<union> set xs"
  by (induction xs arbitrary: init) (auto simp: set_set_add)

lemma length_fold_set_add:
  "length (fold set_add xs init) + collisions init xs = length init + length xs"
  by (induction xs arbitrary: init) (auto simp: set_add_def)

lemma length_candidates: "length (candidates base_name) = 43"
  by (simp add: candidates_def SUFFIXES_def PREFIXES_def)

text \<open>
  Claim C4. The permutations of a base name contain the base name, \<open>base-suffix\<close> and
  \<open>base.suffix\<close> for each of the 15 suffixes, \<open>prefixbase\<close> and \<open>prefix.base\<close> for each of
  the 6 prefixes, and nothing else; no entry occurs twice; their number is
  \<open>1 + 2 * 15 + 2 * 6 = 43\<close> less the number of collisions among the 43 strings added, so it
  never exceeds 43.
\<close>

theorem generate_permutations_properties:
  "base_name \<in> set (generate_permutations base_name) \<and>
   (\<forall>suffix\<in>set SUFFIXES.
      base_name @ ''-'' @ suffix \<in> set (generate_permutations base_name) \<and>
      base_name @ ''.'' @ suffix \<in> set (generate_permutations base_name)) \<and>
   (\<forall>prefix\<in>set PREFIXES.
      prefix @ base_name \<in> set (generate_permutations base_name) \<and>
      prefix @ ''.'' @ base_name \<in> set (generate_permutations base_name)) \<and>
   length SUFFIXES = 15 \<and> length PREFIXES = 6 \<and>
   distinct (generate_permutations base_name) \<and>
   set (generate_permutations base_name) = set (candidates base_name) \<and>
   length (candidates base_name) = 1 + 2 * 15 + 2 * 6 \<and>
   length (generate_permutations base_name) =
     1 + 2 * 15 + 2 * 6 - collisions [] (candidates base_name) \<and>
   length (generate_permutations base_name) = card (set (candidates base_name)) \<and>
   length (generate_permutations base_name) \<le> 43"
proof -
  let ?g = "generate_permutations base_name"
  have A: "base_name \<in> set ?g" by (rule base_in_generate_permutations)
  have B: "\<forall>suffix\<in>set SUFFIXES.
      base_name @ ''-'' @ suffix \<in> set ?g \<and> base_name @ ''.'' @ suffix \<in> set ?g"
    by (auto simp: set_generate_permutations)
  have C: "\<forall>prefix\<in>set PREFIXES.
      prefix @ base_name \<in> set ?g \<and> prefix @ ''.'' @ base_name \<in> set ?g"
    by (auto simp: set_generate_permutations)
  have D: "length SUFFIXES = 15 \<and> length PREFIXES = 6"
    by (simp add: SUFFIXES_def PREFIXES_def)
  have E: "distinct ?g"
    unfolding generate_permutations_fold by (rule distinct_fold_set_add) simp
  have F: "set ?g = set (candidates base_name)"
    unfolding generate_permutations_fold by (simp add: set_fold_set_add_list)
  have G: "length (candidates base_name) = 1 + 2 * 15 + 2 * 6"
    by (simp add: length_candidates)
  have "length ?g + collisions [] (candidates base_name) = 43"
    unfolding generate_permutations_fold
    using length_fold_set_add [of "candidates base_name" "[]"] by (simp add: length_candidates)
  then have H: "length ?g = 1 + 2 * 15 + 2 * 6 - collisions [] (candidates base_name)"
    and J: "length ?g \<le> 43" by simp_all
  from E F have I: "length ?g = card (set (candidates base_name))"
    by (metis distinct_card)
  from A B C D E F G H I J show ?thesis by blast
qed

theorem generate_permutations_properties_witness:
  "''dev'' \<in> set SUFFIXES \<and> ''acme-dev'' \<in> set (generate_permutations ''acme'') \<and>
   ''admin'' \<in> set PREFIXES \<and> ''admin.acme'' \<in> set (generate_permutations ''acme'') \<and>
   length (generate_permutations ''acme'') = 43 \<and>
   length (generate_permutations ''dev'') = 42"
proof -
  note T = generate_permutations_properties [of "''acme''"]
  note U = generate_permutations_properties [of "''dev''"]
  have s: "''dev'' \<in> set SUFFIXES" by (simp add: SUFFIXES_def)
  with T have A: "''acme'' @ ''-'' @ ''dev'' \<in> set (generate_permutations ''acme'')" by blast
  have p: "''admin'' \<in> set PREFIXES" by (simp add: PREFIXES_def)
  with T have B: "''admin'' @ ''.'' @ ''acme'' \<in> set (generate_permutations ''acme'')" by blast
  have "collisions [] (candidates ''acme'') = 0"
    by (simp add: candidates_def SUFFIXES_def PREFIXES_def)
  with T have C: "length (generate_permutations ''acme'') = 43" by simp
  have "collisions [] (candidates ''dev'') = 1"
    by (simp add: candidates_def SUFFIXES_def PREFIXES_def)
  with U have D: "length (generate_permutations ''dev'') = 42" by simp
  from s A p B C D show ?thesis by simp
qed

section \<open>Output and entry point: properties\<close>

lemma dedup_loop_acc:
  "dedup_loop seen acc rs = acc @ dedup_loop seen [] rs"
proof (induction rs arbitrary: seen acc)
  case Nil
  show ?case by simp
next
  case (Cons r rs)
  show ?case
  proof (cases "result_key r \<in> seen")
    case True
    then show ?thesis using Cons.IH [of seen acc] by simp
  next
    case False
    have "dedup_loop (insert (result_key r) seen) (acc @ [r]) rs =
          (acc @ [r]) @ dedup_loop (insert (result_key r) seen) [] rs"
      by (rule Cons.IH)
    moreover have "dedup_loop (insert (result_key r) seen) [r] rs =
          [r] @ dedup_loop (insert (result_key r) seen) [] rs"
      by (rule Cons.IH)
    ultimately show ?thesis using False by simp
  qed
qed

lemma dedup_loop_Cons:
  "dedup_loop seen [] (r # rs) =
     (if result_key r \<in> seen then dedup_loop seen [] rs
      else r # dedup_loop (insert (result_key r) seen) [] rs)"
  using dedup_loop_acc [of "insert (result_key r) seen" "[r]" rs] by simp

lemma dedup_loop_keys:
  "result_key ` set (dedup_loop seen [] rs) = result_key ` set rs - seen"
proof (induction rs arbitrary: seen)
  case Nil
  show ?case by simp
next
  case (Cons r rs)
  show ?case unfolding dedup_loop_Cons using Cons.IH by auto
qed

lemma dedup_loop_distinct:
  "distinct (map result_key (dedup_loop seen [] rs))"
proof (induction rs arbitrary: seen)
  case Nil
  show ?case by simp
next
  case (Cons r rs)
  show ?case unfolding dedup_loop_Cons using Cons.IH dedup_loop_keys by auto
qed

lemma dedup_loop_subseq: "subseq (dedup_loop seen [] rs) rs"
proof (induction rs arbitrary: seen)
  case Nil
  show ?case by simp
next
  case (Cons r rs)
  show ?case unfolding dedup_loop_Cons using Cons.IH by auto
qed

lemma dedup_loop_first:
  "r \<in> set (dedup_loop seen [] rs) \<Longrightarrow>
   find (\<lambda>x. result_key x = result_key r) rs = Some r"
proof (induction rs arbitrary: seen)
  case Nil
  then show ?case by simp
next
  case (Cons x rs)
  show ?case
  proof (cases "result_key x \<in> seen")
    case True
    from Cons.prems have in_rest: "r \<in> set (dedup_loop seen [] rs)"
      unfolding dedup_loop_Cons using True by simp
    then have "result_key r \<in> result_key ` set rs - seen"
      using dedup_loop_keys [of seen rs] by blast
    with True have "result_key x \<noteq> result_key r" by auto
    with Cons.IH [OF in_rest] show ?thesis by simp
  next
    case False
    from Cons.prems have "r \<in> set (x # dedup_loop (insert (result_key x) seen) [] rs)"
      unfolding dedup_loop_Cons using False by simp
    then consider "r = x"
      | "r \<in> set (dedup_loop (insert (result_key x) seen) [] rs)"
      by auto
    then show ?thesis
    proof cases
      case 1
      then show ?thesis by simp
    next
      case 2
      then have "result_key r \<in> result_key ` set rs - insert (result_key x) seen"
        using dedup_loop_keys [of "insert (result_key x) seen" rs] by blast
      then have "result_key x \<noteq> result_key r" by auto
      with Cons.IH [OF 2] show ?thesis by simp
    qed
  qed
qed

lemma format_output_emits_all:
  assumes "output_format m \<in> {''json'', ''jsonl'', ''csv'', ''webhook''}" and "results \<noteq> []"
  shows "\<exists>out. format_output m post now results = Some out \<and> emitted out = results"
  using assms by (auto simp: format_output_def Let_def split: option.splits)

text \<open>
  Claim C6. The table view shows one entry for each pair of service name and URL: the first
  result with that pair, in the order of first appearance; it prints the number of these
  entries and the discovered counter. The formats \<open>json\<close>, \<open>jsonl\<close>, \<open>csv\<close> and \<open>webhook\<close>
  are given the collected results as they are, duplicates included.
\<close>

theorem table_deduplicates_machine_formats_do_not:
  "distinct (map (\<lambda>r. (pr_service r, pr_url r)) (dedup_loop {} [] results)) \<and>
   (\<lambda>r. (pr_service r, pr_url r)) ` set (dedup_loop {} [] results) =
     (\<lambda>r. (pr_service r, pr_url r)) ` set results \<and>
   subseq (dedup_loop {} [] results) results \<and>
   (\<forall>r\<in>set (dedup_loop {} [] results).
      find (\<lambda>x. pr_service x = pr_service r \<and> pr_url x = pr_url r) results = Some r) \<and>
   length (dedup_loop {} [] results) = card ((\<lambda>r. (pr_service r, pr_url r)) ` set results) \<and>
   tv_rows (display_table m results) = map table_row (dedup_loop {} [] results) \<and>
   tv_unique (display_table m results) = length (dedup_loop {} [] results) \<and>
   tv_discovered (display_table m results) = discovered m \<and>
   (output_format m = ''table'' \<or> output_format m = [] \<longrightarrow>
      scan_report m post now results = Table (display_table m results)) \<and>
   (output_format m \<in> {''json'', ''jsonl'', ''csv'', ''webhook''} \<and> results \<noteq> [] \<longrightarrow>
      (\<exists>out. scan_report m post now results = Printed (Some out) \<and> emitted out = results)) \<and>
   (output_format m \<in> {''json'', ''jsonl'', ''csv'', ''webhook''} \<and> results = [] \<longrightarrow>
      scan_report m post now results = Printed None)"
proof -
  let ?U = "dedup_loop {} [] results"
  let ?k = "\<lambda>r. (pr_service r, pr_url r)"
  have rk: "result_key = ?k" by (rule ext) (simp add: result_key_def)
  have A: "distinct (map ?k ?U)"
    using dedup_loop_distinct [of "{}" results] unfolding rk .
  have B: "?k ` set ?U = ?k ` set results"
    using dedup_loop_keys [of "{}" results] unfolding rk by simp
  have C: "subseq ?U results" by (rule dedup_loop_subseq)
  have D: "\<forall>r\<in>set ?U. find (\<lambda>x. pr_service x = pr_service r \<and> pr_url x = pr_url r) results
             = Some r"
  proof
    fix r assume "r \<in> set ?U"
    then have "find (\<lambda>x. result_key x = result_key r) results = Some r"
      by (rule dedup_loop_first)
    then show "find (\<lambda>x. pr_service x = pr_service r \<and> pr_url x = pr_url r) results = Some r"
      by (simp add: result_key_def)
  qed
  have "length ?U = length (map ?k ?U)" by simp
  also have "\<dots> = card (set (map ?k ?U))" using A by (simp only: distinct_card)
  also have "\<dots> = card (?k ` set results)" using B by simp
  finally have E: "length ?U = card (?k ` set results)" .
  have F: "tv_rows (display_table m results) = map table_row ?U \<and>
           tv_unique (display_table m results) = length ?U \<and>
           tv_discovered (display_table m results) = discovered m"
    by (simp add: display_table_def Let_def)
  have G: "output_format m = ''table'' \<or> output_format m = [] \<longrightarrow>
      scan_report m post now results = Table (display_table m results)"
    by (auto simp: scan_report_def)
  have H: "output_format m \<in> {''json'', ''jsonl'', ''csv'', ''webhook''} \<and> results \<noteq> [] \<longrightarrow>
      (\<exists>out. scan_report m post now results = Printed (Some out) \<and> emitted out = results)"
  proof
    assume a: "output_format m \<in> {''json'', ''jsonl'', ''csv'', ''webhook''} \<and> results \<noteq> []"
    then have "output_format m \<noteq> [] \<and> output_format m \<noteq> ''table''" by auto
    then have "scan_report m post now results = Printed (format_output m post now results)"
      by (simp add: scan_report_def)
    with format_output_emits_all [of m results post now] a
    show "\<exists>out. scan_report m post now results = Printed (Some out) \<and> emitted out = results"
      by auto
  qed
  have I: "output_format m \<in> {''json'', ''jsonl'', ''csv'', ''webhook''} \<and> results = [] \<longrightarrow>
      scan_report m post now results = Printed None"
    by (auto simp: scan_report_def format_output_def)
  from A B C D E F G H I show ?thesis by blast
qed

theorem table_deduplicates_machine_formats_do_not_witness:
  "tv_unique (display_table ex_mapper ex_results) = 2 \<and>
   tv_rows (display_table ex_mapper ex_results) =
     [(''svcA'', ''url1'', ''[cyan]EXISTS[/]'', ''found''),
      (''svcB'', ''url1'', ''[cyan]EXISTS[/]'', ''found'')] \<and>
   ex_result ''svcA'' ''url1'' ''10:00:01'' \<in> set (dedup_loop {} [] ex_results) \<and>
   find (\<lambda>x. pr_service x = ''svcA'' \<and> pr_url x = ''url1'') ex_results
     = Some (ex_result ''svcA'' ''url1'' ''10:00:01'') \<and>
   tv_unique (display_table ex_mapper
      [ex_result ''svcA'' ''url1'' ''10:00:01'', ex_result ''svcA'' ''url2'' ''10:00:02'']) = 2 \<and>
   tv_rows (display_table ex_mapper
      [ex_result ''svcA'' ''url1'' ''10:00:01'', ex_result ''svcA'' ''url2'' ''10:00:02'']) =
     [(''svcA'', ''url1'', ''[cyan]EXISTS[/]'', ''found''),
      (''svcA'', ''url2'', ''[cyan]EXISTS[/]'', ''found'')] \<and>
   output_format (ex_mapper\<lparr>output_format := ''jsonl''\<rparr>) \<in> {''json'', ''jsonl'', ''csv'', ''webhook''} \<and>
   ex_results \<noteq> [] \<and>
   (\<exists>out. scan_report (ex_mapper\<lparr>output_format := ''jsonl''\<rparr>) (\<lambda>u p. None) ''10:01:00'' ex_results
            = Printed (Some out) \<and>
          emitted out = ex_results \<and> length (emitted out) = 3)"
proof -
  let ?two = "[ex_result ''svcA'' ''url1'' ''10:00:01'', ex_result ''svcA'' ''url2'' ''10:00:02'']"
  note T = table_deduplicates_machine_formats_do_not
    [of ex_results ex_mapper "\<lambda>u p. None" "''10:01:00''"]
  note J = table_deduplicates_machine_formats_do_not
    [of ex_results "ex_mapper\<lparr>output_format := ''jsonl''\<rparr>" "\<lambda>u p. None" "''10:01:00''"]
  note K = table_deduplicates_machine_formats_do_not
    [of ?two ex_mapper "\<lambda>u p. None" "''10:01:00''"]
  have U: "dedup_loop {} [] ex_results =
     [ex_result ''svcA'' ''url1'' ''10:00:01'', ex_result ''svcB'' ''url1'' ''10:00:03'']"
    by (simp add: ex_results_def ex_result_def result_key_def)
  from T have "tv_unique (display_table ex_mapper ex_results) = length (dedup_loop {} [] ex_results)"
    by blast
  then have A: "tv_unique (display_table ex_mapper ex_results) = 2" unfolding U by simp
  from T have "tv_rows (display_table ex_mapper ex_results) =
      map table_row (dedup_loop {} [] ex_results)" by blast
  then have B: "tv_rows (display_table ex_mapper ex_results) =
     [(''svcA'', ''url1'', ''[cyan]EXISTS[/]'', ''found''),
      (''svcB'', ''url1'', ''[cyan]EXISTS[/]'', ''found'')]"
    unfolding U by (simp add: table_row_def ex_result_def)
  have C: "ex_result ''svcA'' ''url1'' ''10:00:01'' \<in> set (dedup_loop {} [] ex_results)"
    unfolding U by simp
  with T have "find (\<lambda>x. pr_service x = pr_service (ex_result ''svcA'' ''url1'' ''10:00:01'') \<and>
                        pr_url x = pr_url (ex_result ''svcA'' ''url1'' ''10:00:01''))
      ex_results = Some (ex_result ''svcA'' ''url1'' ''10:00:01'')" by blast
  moreover have "pr_service (ex_result ''svcA'' ''url1'' ''10:00:01'') = ''svcA''"
    and "pr_url (ex_result ''svcA'' ''url1'' ''10:00:01'') = ''url1''"
    by (simp_all add: ex_result_def)
  ultimately have D: "find (\<lambda>x. pr_service x = ''svcA'' \<and> pr_url x = ''url1'') ex_results
      = Some (ex_result ''svcA'' ''url1'' ''10:00:01'')" by simp
  have "card ((\<lambda>r. (pr_service r, pr_url r)) ` set ?two) = 2"
    by (simp add: ex_result_def)
  with K have L: "length (dedup_loop {} [] ?two) = 2" by simp
  with K have M: "tv_unique (display_table ex_mapper ?two) = 2" by simp
  have "subseq (dedup_loop {} [] ?two) ?two" using K by blast
  with L have "dedup_loop {} [] ?two = ?two"
    by (metis length_Cons list.size(3) numeral_2_eq_2 subseq_same_length)
  with K have N: "tv_rows (display_table ex_mapper ?two) =
     [(''svcA'', ''url1'', ''[cyan]EXISTS[/]'', ''found''),
      (''svcA'', ''url2'', ''[cyan]EXISTS[/]'', ''found'')]"
    by (simp add: table_row_def ex_result_def)
  have E: "output_format (ex_mapper\<lparr>output_format := ''jsonl''\<rparr>)
      \<in> {''json'', ''jsonl'', ''csv'', ''webhook''}" by simp
  have F: "ex_results \<noteq> []" by (simp add: ex_results_def)
  from J E F obtain out where out:
    "scan_report (ex_mapper\<lparr>output_format := ''jsonl''\<rparr>) (\<lambda>u p. None) ''10:01:00'' ex_results
       = Printed (Some out)" "emitted out = ex_results" by blast
  moreover have "length ex_results = 3" by (simp add: ex_results_def)
  ultimately have G: "\<exists>out. scan_report (ex_mapper\<lparr>output_format := ''jsonl''\<rparr>) (\<lambda>u p. None)
       ''10:01:00'' ex_results = Printed (Some out) \<and>
          emitted out = ex_results \<and> length (emitted out) = 3" by auto
  from A B C D M N E F G show ?thesis by blast
qed

text \<open>
  Claim C7 asks for exit status 1 when the webhook output is selected without a webhook URL.
  At that input \<^verbatim>\<open>main\<close> prints the error and returns before the scanner is built, so the
  process ends with status 0.
\<close>

theorem main_webhook_without_url:
  "main \<lparr> a_target = ''acme'', a_service = ''*'', a_skip_checks = False, a_headers = None,
          a_delay = 0, a_timeout = 10, a_verbose = False, a_output = ''webhook'',
          a_webhook = None, a_threads = 5 \<rparr> body =
     \<lparr> console = [''[red]Error: Webhook URL required when using webhook output format[/]''],
       exit_status = 0, scanner_started = False \<rparr>"
  by (simp add: main_def truthy_def)

end
